theory Spec2Isabelle
  imports Complex_Main "HOL-Library.Product_Order"
begin

section \<open>Values, errors and arguments\<close>

text \<open>
  The model of \<^verbatim>\<open>central_model.py\<close>. Scalars are exact reals (the source computes in
  floating point), exceptions are values of \<open>error\<close>, and a call that does not return is
  \<open>None\<close>.
\<close>

datatype error = AssertionError | IndexError | ZeroDivisionError

type_synonym vec3 = "real \<times> real \<times> real"

text \<open>An argument that is checked with \<^verbatim>\<open>isinstance(_, tuple)\<close>.\<close>

datatype tuple_arg = Tuple "real list" | NotTuple

text \<open>
  An argument that is checked with \<^verbatim>\<open>isinstance(_, np.ndarray)\<close>: an array has a shape
  and an entry at every multi-index within the shape.
\<close>

datatype array_arg = Ndarray (shape: "nat list") (item: "nat list \<Rightarrow> real") | NotNdarray

text \<open>
  The module \<^verbatim>\<open>knot_generators\<close> is imported by the source and is not part of it: its
  two functions are parameters of the model.
\<close>

record knot_generators =
  open_uniform :: "nat \<Rightarrow> int \<Rightarrow> real list"
  uniform :: "nat \<Rightarrow> int \<Rightarrow> real list"

record central_model =
  self_image_width :: real
  self_image_height :: real
  self_grid_width :: real
  self_grid_height :: real
  self_n :: nat
  self_m :: nat
  self_a :: "nat list \<Rightarrow> real"
  self_order :: int
  self_th :: "real list"
  self_tv :: "real list"
  self_min_basis_value :: real

section \<open>Construction\<close>

fun is_2tuple :: "tuple_arg \<Rightarrow> bool" where
  "is_2tuple (Tuple xs) = (length xs = 2)"
| "is_2tuple NotTuple = False"

fun tuple_items :: "tuple_arg \<Rightarrow> real list" where
  "tuple_items (Tuple xs) = xs"
| "tuple_items NotTuple = []"

fun is_grid :: "array_arg \<Rightarrow> bool" where
  "is_grid (Ndarray s f) = (length s = 3 \<and> last s = 3)"
| "is_grid NotNdarray = False"

text \<open>
  \<^verbatim>\<open>__init__\<close>: five assertions in the order of the source, then the attributes.
  \<open>end_divergence\<close> is accepted and not used.
\<close>

definition init ::
  "knot_generators \<Rightarrow> tuple_arg \<Rightarrow> tuple_arg \<Rightarrow> array_arg \<Rightarrow> int \<Rightarrow> string \<Rightarrow> real \<Rightarrow> real
     \<Rightarrow> error + central_model" where
  "init kg image_dimensions grid_dimensions control_points order knot_method
        min_basis_value end_divergence =
     (if knot_method \<notin> set [''open_uniform'', ''uniform''] then Inl AssertionError
      else if \<not> is_2tuple image_dimensions then Inl AssertionError
      else if \<not> is_2tuple grid_dimensions then Inl AssertionError
      else if \<not> is_grid control_points then Inl AssertionError
      else if \<not> (int (shape control_points ! 0) > order \<and> int (shape control_points ! 1) > order)
        then Inl AssertionError
      else
        (let n = shape control_points ! 0; m = shape control_points ! 1
         in Inr \<lparr> self_image_width = tuple_items image_dimensions ! 0,
                  self_image_height = tuple_items image_dimensions ! 1,
                  self_grid_width = tuple_items grid_dimensions ! 0,
                  self_grid_height = tuple_items grid_dimensions ! 1,
                  self_n = n,
                  self_m = m,
                  self_a = item control_points,
                  self_order = order,
                  self_th = (if knot_method = ''open_uniform'' then open_uniform kg n order
                             else uniform kg n order),
                  self_tv = (if knot_method = ''open_uniform'' then open_uniform kg m order
                             else uniform kg m order),
                  self_min_basis_value = min_basis_value \<rparr>))"

section \<open>The basis function\<close>

text \<open>\<^verbatim>\<open>t[j]\<close>: a negative index counts from the end, an index out of range raises.\<close>

definition getitem :: "real list \<Rightarrow> int \<Rightarrow> error + real" where
  "getitem t j =
     (let l = int (length t); j' = (if j < 0 then j + l else j)
      in if 0 \<le> j' \<and> j' < l then Inr (t ! nat j') else Inl IndexError)"

text \<open>
  \<^verbatim>\<open>__B__\<close>, with the reads of \<open>t\<close> and the two recursive calls in the order of the
  source. In the base case the chained comparison reads \<^verbatim>\<open>t[i + 1]\<close> only when
  \<^verbatim>\<open>t[i] <= x\<close> holds. The order \<open>k\<close> is an integer as in the source: below zero the
  recursion never meets \<open>k = 0\<close>.
\<close>

partial_function (option) B :: "nat \<Rightarrow> int \<Rightarrow> real list \<Rightarrow> real \<Rightarrow> (error + real) option" where
  "B i k t x =
     (if k = 0 then
        (case getitem t (int i) of
           Inl e \<Rightarrow> Some (Inl e)
         | Inr ti \<Rightarrow>
             if ti \<le> x then
               (case getitem t (int i + 1) of
                  Inl e \<Rightarrow> Some (Inl e)
                | Inr ti1 \<Rightarrow> if x < ti1 then Some (Inr 1) else Some (Inr 0))
             else Some (Inr 0))
      else
        (case getitem t (int i) of
           Inl e \<Rightarrow> Some (Inl e)
         | Inr ti \<Rightarrow>
        (case getitem t (int i + k) of
           Inl e \<Rightarrow> Some (Inl e)
         | Inr tik \<Rightarrow>
        Option.bind (B i (k - 1) t x) (\<lambda>r1.
        (case r1 of
           Inl e \<Rightarrow> Some (Inl e)
         | Inr term1c \<Rightarrow>
        (case getitem t (int i + k + 1) of
           Inl e \<Rightarrow> Some (Inl e)
         | Inr tik1 \<Rightarrow>
        (case getitem t (int i + 1) of
           Inl e \<Rightarrow> Some (Inl e)
         | Inr ti1 \<Rightarrow>
        Option.bind (B (i + 1) (k - 1) t x) (\<lambda>r2.
        (case r2 of
           Inl e \<Rightarrow> Some (Inl e)
         | Inr term2c \<Rightarrow>
             (let term1a = x - ti; term1b = tik - ti;
                  term1a = (if term1b = 0 then 1 else term1a);
                  term1b = (if term1b = 0 then 1 else term1b);
                  term2a = tik1 - x; term2b = tik1 - ti1;
                  term2a = (if term2b = 0 then 1 else term2a);
                  term2b = (if term2b = 0 then 1 else term2b)
              in Some (Inr (term1a / term1b * term1c + term2a / term2b * term2c))))))))))))"

text \<open>
  The value that \<open>B\<close> returns when every read of \<open>t\<close> is in range and \<open>k\<close> is a natural
  number, as a total function of the knots (lemma \<open>B_in_range\<close> relates the two).
\<close>

fun basis_value :: "real list \<Rightarrow> nat \<Rightarrow> nat \<Rightarrow> real \<Rightarrow> real" where
  "basis_value t i 0 x = (if t ! i \<le> x \<and> x < t ! (i + 1) then 1 else 0)"
| "basis_value t i (Suc k) x =
     (if t ! (i + Suc k) - t ! i = 0 then 1 else (x - t ! i) / (t ! (i + Suc k) - t ! i))
       * basis_value t i k x
     + (if t ! (i + Suc k + 1) - t ! (i + 1) = 0 then 1
        else (t ! (i + Suc k + 1) - x) / (t ! (i + Suc k + 1) - t ! (i + 1)))
       * basis_value t (i + 1) k x"

section \<open>Sampling\<close>

text \<open>
  The comprehension \<^verbatim>\<open>[self.__B__(i, order, t, x) for i in range(count)]\<close>: the calls
  are made in order and the first one that fails ends the comprehension.
\<close>

fun B_all :: "nat list \<Rightarrow> int \<Rightarrow> real list \<Rightarrow> real \<Rightarrow> (error + real list) option" where
  "B_all [] k t x = Some (Inr [])"
| "B_all (i # is) k t x =
     (case B i k t x of
        None \<Rightarrow> None
      | Some (Inl e) \<Rightarrow> Some (Inl e)
      | Some (Inr b) \<Rightarrow>
          (case B_all is k t x of
             None \<Rightarrow> None
           | Some (Inl e) \<Rightarrow> Some (Inl e)
           | Some (Inr bs) \<Rightarrow> Some (Inr (b # bs))))"

text \<open>\<^verbatim>\<open>np.where(bs >= c)[0]\<close>: the indices of the entries at least \<open>c\<close>, ascending.\<close>

definition where_ge :: "real list \<Rightarrow> real \<Rightarrow> nat list" where
  "where_ge bs c = filter (\<lambda>i. c \<le> bs ! i) [0..<length bs]"

definition multiply :: "vec3 \<Rightarrow> real \<Rightarrow> vec3" where
  "multiply p c = (case p of (p0, p1, p2) \<Rightarrow> (p0 * c, p1 * c, p2 * c))"

text \<open>\<^verbatim>\<open>self.a[i, j]\<close>: the three entries of the control point at \<open>(i, j)\<close>.\<close>

definition control_point :: "central_model \<Rightarrow> nat \<Rightarrow> nat \<Rightarrow> vec3" where
  "control_point M i j = (self_a M [i, j, 0], self_a M [i, j, 1], self_a M [i, j, 2])"

text \<open>
  \<^verbatim>\<open>sample\<close>, for pixel coordinates that are Python numbers: dividing by a grid
  dimension minus one raises when that is zero. \<open>Bh\<close> is computed over \<open>range(n)\<close> against
  \<open>tv\<close> and \<open>Bv\<close> over \<open>range(m)\<close> against \<open>th\<close>, as in the source.
\<close>

definition sample :: "central_model \<Rightarrow> real \<Rightarrow> real \<Rightarrow> (error + vec3) option" where
  "sample M u v =
     (let u = u + (self_grid_width M - self_image_width M) / 2
      in if self_grid_width M - 1 = 0 then Some (Inl ZeroDivisionError)
      else
     (let u = u / (self_grid_width M - 1);
          v = v + (self_grid_height M - self_image_height M) / 2
      in if self_grid_height M - 1 = 0 then Some (Inl ZeroDivisionError)
      else
     (let v = v / (self_grid_height M - 1)
      in (case B_all [0..<self_n M] (self_order M) (self_tv M) u of
           None \<Rightarrow> None
         | Some (Inl e) \<Rightarrow> Some (Inl e)
         | Some (Inr Bh) \<Rightarrow>
        (case B_all [0..<self_m M] (self_order M) (self_th M) v of
           None \<Rightarrow> None
         | Some (Inl e) \<Rightarrow> Some (Inl e)
         | Some (Inr Bv) \<Rightarrow>
        (let vi = where_ge Bh (self_min_basis_value M);
             vj = where_ge Bv (self_min_basis_value M)
         in Some (Inr
              (fold (\<lambda>i res. fold (\<lambda>j res. res + multiply (control_point M i j) (Bh ! i * Bv ! j))
                                 vj res)
                    vi (0, 0, 0)))))))))"

text \<open>
  A numpy float after a division: a division by zero gives a not-a-number or an
  infinity (with a warning) and raises nothing.
\<close>

datatype npfloat = Finite real | PosInf | NegInf | NaN

definition np_divide :: "real \<Rightarrow> real \<Rightarrow> npfloat" where
  "np_divide p q =
     (if q \<noteq> 0 then Finite (p / q)
      else if p = 0 then NaN else if 0 < p then PosInf else NegInf)"

text \<open>\<^verbatim>\<open>np.linalg.norm\<close> of a vector of three entries.\<close>

definition linalg_norm :: "vec3 \<Rightarrow> real" where
  "linalg_norm s = (case s of (s0, s1, s2) \<Rightarrow> sqrt (s0 * s0 + s1 * s1 + s2 * s2))"

definition sample_normalized ::
  "central_model \<Rightarrow> real \<Rightarrow> real \<Rightarrow> (error + npfloat \<times> npfloat \<times> npfloat) option" where
  "sample_normalized M u v =
     (case sample M u v of
        None \<Rightarrow> None
      | Some (Inl e) \<Rightarrow> Some (Inl e)
      | Some (Inr s) \<Rightarrow>
          (case s of (s0, s1, s2) \<Rightarrow>
             Some (Inr (np_divide s0 (linalg_norm s), np_divide s1 (linalg_norm s),
                        np_divide s2 (linalg_norm s)))))"

section \<open>The knot generators of the specification\<close>

text \<open>
  Modelled from the spec: the module \<^verbatim>\<open>knot_generators\<close> (functions \<^verbatim>\<open>open_uniform\<close> and
  \<^verbatim>\<open>uniform\<close>) is missing from the source. The specification gives its contract: for a
  count and an order below it, each function returns a non-decreasing sequence of
  length \<open>count + order + 2\<close>.
\<close>

definition knot_contract :: "knot_generators \<Rightarrow> bool" where
  "knot_contract kg \<longleftrightarrow>
     (\<forall>count order. 0 \<le> order \<and> order < int count \<longrightarrow>
        length (open_uniform kg count order) = count + nat order + 2
        \<and> sorted (open_uniform kg count order)
        \<and> length (uniform kg count order) = count + nat order + 2
        \<and> sorted (uniform kg count order))"

text \<open>
  Modelled from the spec: an open-uniform generator as the specification describes it,
  with the first and the last \<open>order + 1\<close> knots clamped to 0 and 1 and \<open>count - order\<close>
  uniformly spaced knots between them.
\<close>

definition open_uniform_spec :: "nat \<Rightarrow> int \<Rightarrow> real list" where
  "open_uniform_spec count order =
     replicate (nat order + 1) 0
     @ map (\<lambda>j. real j / real (count - nat order + 1)) [1..<count - nat order + 1]
     @ replicate (nat order + 1) 1"

text \<open>
  Modelled from the spec: a uniform generator as the specification describes it,
  \<open>count + order + 2\<close> uniformly spaced knots from 0 to 1 without clamping.
\<close>

definition uniform_spec :: "nat \<Rightarrow> int \<Rightarrow> real list" where
  "uniform_spec count order =
     map (\<lambda>j. real j / real (count + nat order + 1)) [0..<count + nat order + 2]"

definition kg_spec :: knot_generators where
  "kg_spec = \<lparr> open_uniform = open_uniform_spec, uniform = uniform_spec \<rparr>"

section \<open>Example models\<close>

text \<open>
  Control points on an \<open>n \<times> m\<close> grid whose point at \<open>(i, j)\<close> is \<open>(3 i, 4 j, 0)\<close>.
\<close>

definition example_points :: "nat \<Rightarrow> nat \<Rightarrow> array_arg" where
  "example_points n m =
     Ndarray [n, m, 3]
       (\<lambda>idx. if idx ! 2 = 0 then 3 * real (idx ! 0)
              else if idx ! 2 = 1 then 4 * real (idx ! 1) else 0)"

text \<open>
  The model that \<open>init\<close> builds for an image and a grid of 3 by 3 pixels, the example
  points on \<open>n \<times> m\<close>, order 1, open-uniform knots and the threshold \<open>c\<close>.
\<close>

definition example_model :: "nat \<Rightarrow> nat \<Rightarrow> real \<Rightarrow> central_model" where
  "example_model n m c =
     \<lparr> self_image_width = 3, self_image_height = 3,
       self_grid_width = 3, self_grid_height = 3,
       self_n = n, self_m = m,
       self_a = item (example_points n m),
       self_order = 1,
       self_th = open_uniform_spec n 1,
       self_tv = open_uniform_spec m 1,
       self_min_basis_value = c \<rparr>"

section \<open>Reading the knots\<close>

lemma getitem_in_range: "j < length t \<Longrightarrow> getitem t (int j) = Inr (t ! j)"
  by (simp add: getitem_def)


lemma B_zero:
  "B i 0 t x =
     (case getitem t (int i) of
        Inl e \<Rightarrow> Some (Inl e)
      | Inr ti \<Rightarrow>
          if ti \<le> x then
            (case getitem t (int (i + 1)) of
               Inl e \<Rightarrow> Some (Inl e)
             | Inr ti1 \<Rightarrow> if x < ti1 then Some (Inr 1) else Some (Inr 0))
          else Some (Inr 0))"
proof -
  have e: "int i + 1 = int (i + 1)" by simp
  show ?thesis by (subst B.simps, unfold e) simp
qed

lemma B_Suc:
  "B i (int (Suc k)) t x =
     (case getitem t (int i) of
        Inl e \<Rightarrow> Some (Inl e)
      | Inr ti \<Rightarrow>
     (case getitem t (int (i + Suc k)) of
        Inl e \<Rightarrow> Some (Inl e)
      | Inr tik \<Rightarrow>
     Option.bind (B i (int k) t x) (\<lambda>r1.
     (case r1 of
        Inl e \<Rightarrow> Some (Inl e)
      | Inr term1c \<Rightarrow>
     (case getitem t (int (i + Suc k + 1)) of
        Inl e \<Rightarrow> Some (Inl e)
      | Inr tik1 \<Rightarrow>
     (case getitem t (int (i + 1)) of
        Inl e \<Rightarrow> Some (Inl e)
      | Inr ti1 \<Rightarrow>
     Option.bind (B (i + 1) (int k) t x) (\<lambda>r2.
     (case r2 of
        Inl e \<Rightarrow> Some (Inl e)
      | Inr term2c \<Rightarrow>
          Some (Inr ((if tik - ti = 0 then 1 else x - ti) / (if tik - ti = 0 then 1 else tik - ti)
                       * term1c
                     + (if tik1 - ti1 = 0 then 1 else tik1 - x)
                         / (if tik1 - ti1 = 0 then 1 else tik1 - ti1) * term2c))))))))))"
proof -
  have e: "int i + int (Suc k) = int (i + Suc k)" "int (i + Suc k) + 1 = int (i + Suc k + 1)"
    "int i + 1 = int (i + 1)" "int (Suc k) - 1 = int k"
    by simp_all
  show ?thesis
    by (subst B.simps, unfold e Let_def) (simp cong: sum.case_cong del: of_nat_add of_nat_Suc)
qed

lemma B_nat_returns: "\<exists>r. B i (int k) t x = Some r"
proof (induction k arbitrary: i)
  case 0
  show ?case by (simp add: B_zero split: sum.split)
next
  case (Suc k)
  obtain r1 where r1: "B i (int k) t x = Some r1" using Suc by blast
  obtain r2 where r2: "B (i + 1) (int k) t x = Some r2" using Suc by blast
  show ?case unfolding B_Suc r1 r2 by (simp split: sum.split)
qed

lemma B_in_range: "i + k + 1 < length t \<Longrightarrow> B i (int k) t x = Some (Inr (basis_value t i k x))"
proof (induction k arbitrary: i)
  case 0
  then show ?case by (simp add: B_zero getitem_in_range del: of_nat_add of_nat_Suc)
next
  case (Suc k)
  have r1: "B i (int k) t x = Some (Inr (basis_value t i k x))" using Suc by simp
  have r2: "B (i + 1) (int k) t x = Some (Inr (basis_value t (i + 1) k x))" using Suc by simp
  show ?case unfolding B_Suc r1 r2 using Suc.prems by (simp add: getitem_in_range del: of_nat_add of_nat_Suc)
qed



section \<open>The basis value over non-decreasing knots\<close>

lemma basis_value_support:
  "sorted t \<Longrightarrow> i + k + 1 < length t \<Longrightarrow> x < t ! i \<or> t ! (i + k + 1) \<le> x
     \<Longrightarrow> basis_value t i k x = 0"
proof (induction k arbitrary: i)
  case 0
  then show ?case by auto
next
  case (Suc k)
  have m1: "t ! i \<le> t ! (i + 1)" and m2: "t ! (i + k + 1) \<le> t ! (i + Suc k + 1)"
    using Suc.prems(1,2) by (simp_all add: sorted_nth_mono)
  have "basis_value t i k x = 0"
    using Suc.IH [of i] Suc.prems m2 by auto
  moreover have "basis_value t (i + 1) k x = 0"
    using Suc.IH [of "i + 1"] Suc.prems m1 by auto
  ultimately show ?case by simp
qed



lemma basis_value_span_sum:
  "sorted t \<Longrightarrow> a + 2 * k + 1 < length t \<Longrightarrow> t ! (a + k) \<le> x \<Longrightarrow> x < t ! (a + k + 1)
     \<Longrightarrow> (\<Sum>i = a..a + k. basis_value t i k x) = 1"
proof (induction k arbitrary: a)
  case 0
  then show ?case by simp
next
  case (Suc k)
  let ?f = "\<lambda>i. basis_value t i k x"
  let ?c1 = "\<lambda>i. if t ! (i + Suc k) - t ! i = 0 then 1 else (x - t ! i) / (t ! (i + Suc k) - t ! i)"
  let ?c2 = "\<lambda>i. if t ! (i + Suc k) - t ! i = 0 then 1
                  else (t ! (i + Suc k) - x) / (t ! (i + Suc k) - t ! i)"
  have IH: "(\<Sum>i = Suc a..Suc a + k. ?f i) = 1"
    using Suc.IH [of "Suc a"] Suc.prems by simp
  have lo: "?f a = 0"
    using basis_value_support [of t a k x] Suc.prems by simp
  have hi: "?f (Suc (Suc a + k)) = 0"
    using basis_value_support [of t "Suc (Suc a + k)" k x] Suc.prems by simp
  have unfold: "(\<Sum>i = a..a + Suc k. basis_value t i (Suc k) x)
      = (\<Sum>i = a..a + Suc k. ?c1 i * ?f i) + (\<Sum>i = a..a + Suc k. ?c2 (Suc i) * ?f (Suc i))"
    by (simp add: sum.distrib cong: if_cong)
  have first: "(\<Sum>i = a..a + Suc k. ?c1 i * ?f i) = (\<Sum>i = Suc a..Suc a + k. ?c1 i * ?f i)"
    using lo by (simp add: sum.atLeast_Suc_atMost)
  have "(\<Sum>i = a..a + Suc k. ?c2 (Suc i) * ?f (Suc i)) = (\<Sum>i = Suc a..Suc (Suc a + k). ?c2 i * ?f i)"
    using sum.shift_bounds_cl_Suc_ivl [of "\<lambda>i. ?c2 i * ?f i" a "a + Suc k"] by simp
  also have "\<dots> = (\<Sum>i = Suc a..Suc a + k. ?c2 i * ?f i)"
    using hi by simp
  finally have second:
    "(\<Sum>i = a..a + Suc k. ?c2 (Suc i) * ?f (Suc i)) = (\<Sum>i = Suc a..Suc a + k. ?c2 i * ?f i)" .
  have pointwise: "?c1 i * ?f i + ?c2 i * ?f i = ?f i" if "i \<in> {Suc a..Suc a + k}" for i
  proof -
    have "t ! i \<le> t ! (a + Suc k)"
      using that Suc.prems(1,2) by (intro sorted_nth_mono) simp_all
    moreover have "t ! (a + Suc k + 1) \<le> t ! (i + Suc k)"
      using that Suc.prems(1,2) by (intro sorted_nth_mono) simp_all
    ultimately have "t ! i < t ! (i + Suc k)"
      using Suc.prems(3,4) by linarith
    then have "?c1 i + ?c2 i = 1"
      by (simp add: add_divide_distrib [symmetric])
    then show ?thesis
      by (metis distrib_right mult_1)
  qed
  have "(\<Sum>i = a..a + Suc k. basis_value t i (Suc k) x)
      = (\<Sum>i = Suc a..Suc a + k. ?c1 i * ?f i + ?c2 i * ?f i)"
    unfolding unfold first second by (simp add: sum.distrib)
  also have "\<dots> = (\<Sum>i = Suc a..Suc a + k. ?f i)"
    using pointwise by (intro sum.cong) simp_all
  finally show ?case using IH by simp
qed

lemma knot_span_exists:
  "lo < hi \<Longrightarrow> t ! lo \<le> (x::real) \<Longrightarrow> x < t ! hi
     \<Longrightarrow> \<exists>j. lo \<le> j \<and> j < hi \<and> t ! j \<le> x \<and> x < t ! (j + 1)"
proof (induction hi)
  case 0
  then show ?case by simp
next
  case (Suc h)
  show ?case
  proof (cases "x < t ! h")
    case True
    then have "lo < h" using Suc.prems by (cases "lo = h") auto
    then obtain j where "lo \<le> j" "j < h" "t ! j \<le> x" "x < t ! (j + 1)"
      using Suc.IH Suc.prems True by blast
    then show ?thesis by (intro exI [of _ j]) simp
  next
    case False
    then show ?thesis using Suc.prems by (intro exI [of _ h]) simp
  qed
qed

lemma basis_value_partition:
  assumes "sorted t" and "count + k < length t" and "t ! k \<le> x" and "x < t ! count"
  shows "(\<Sum>i<count. basis_value t i k x) = 1"
proof -
  have "k < count"
  proof (rule ccontr)
    assume "\<not> k < count"
    then have "t ! count \<le> t ! k" using assms(1,2) by (intro sorted_nth_mono) simp_all
    then show False using assms(3,4) by simp
  qed
  then obtain j where j: "k \<le> j" "j < count" "t ! j \<le> x" "x < t ! (j + 1)"
    using knot_span_exists [of k count t x] assms by blast
  define a where "a = j - k"
  have aj: "a + k = j" using j(1) by (simp add: a_def)
  have span: "(\<Sum>i = a..a + k. basis_value t i k x) = 1"
    using basis_value_span_sum [of t a k x] assms(1,2) j aj by simp
  have "(\<Sum>i<count. basis_value t i k x) = (\<Sum>i \<in> {a..a + k}. basis_value t i k x)"
  proof (rule sum.mono_neutral_right)
    show "finite {..<count}" by simp
    show "{a..a + k} \<subseteq> {..<count}" using j aj by auto
    show "\<forall>i\<in>{..<count} - {a..a + k}. basis_value t i k x = 0"
    proof
      fix i assume i: "i \<in> {..<count} - {a..a + k}"
      then consider "i < a" | "j < i" using aj by force
      then show "basis_value t i k x = 0"
      proof cases
        case 1
        then have "t ! (i + k + 1) \<le> t ! j"
          using aj assms(1,2) j(2) by (intro sorted_nth_mono) simp_all
        then show ?thesis
          using basis_value_support [of t i k x] assms(1,2) i j(3) by simp
      next
        case 2
        then have "t ! (j + 1) \<le> t ! i"
          using assms(1,2) i by (intro sorted_nth_mono) simp_all
        then show ?thesis
          using basis_value_support [of t i k x] assms(1,2) i j(4) by simp
      qed
    qed
  qed
  then show ?thesis using span by simp
qed


section \<open>The sampling loop\<close>

lemma B_all_values:
  "(\<And>i. i \<in> set js \<Longrightarrow> B i k t x = Some (Inr (f i)))
     \<Longrightarrow> B_all js k t x = Some (Inr (map f js))"
  by (induction js) simp_all

lemma B_all_range:
  assumes "\<And>i. i < count \<Longrightarrow> B i k t x = Some (Inr (f i))"
  shows "B_all [0..<count] k t x = Some (Inr (map f [0..<count]))"
  using assms by (intro B_all_values) simp

lemma fold_plus_sum_list:
  fixes z :: "'a::comm_monoid_add"
  shows "fold (\<lambda>i res. res + g i) xs z = z + sum_list (map g xs)"
  by (induction xs arbitrary: z) (simp_all add: add.assoc)

lemma set_where_ge: "set (where_ge bs c) = {i. i < length bs \<and> c \<le> bs ! i}"
  by (auto simp: where_ge_def)

lemma distinct_where_ge: "distinct (where_ge bs c)"
  by (simp add: where_ge_def)

lemma accumulate_sum:
  fixes h :: "nat \<Rightarrow> nat \<Rightarrow> vec3"
  shows "fold (\<lambda>i res. fold (\<lambda>j res. res + h i j) (where_ge ys c) res) (where_ge xs c) (0, 0, 0)
         = (\<Sum>i \<in> {i. i < length xs \<and> c \<le> xs ! i}. \<Sum>j \<in> {j. j < length ys \<and> c \<le> ys ! j}. h i j)"
proof -
  have inner: "fold (\<lambda>j res. res + h i j) (where_ge ys c) res
      = res + (\<Sum>j \<in> {j. j < length ys \<and> c \<le> ys ! j}. h i j)" for i res
    by (simp add: fold_plus_sum_list sum_list_distinct_conv_sum_set distinct_where_ge
        set_where_ge)
  have "(0::real, 0::real, 0::real) = 0" by (simp add: zero_prod_def)
  then show ?thesis
    unfolding inner
    by (simp add: fold_plus_sum_list sum_list_distinct_conv_sum_set distinct_where_ge
        set_where_ge)
qed

lemma sample_sum:
  assumes gw: "self_grid_width M \<noteq> 1" and gh: "self_grid_height M \<noteq> 1"
    and bh: "\<And>i. i < self_n M \<Longrightarrow>
          B i (self_order M) (self_tv M)
            ((u + (self_grid_width M - self_image_width M) / 2) / (self_grid_width M - 1))
          = Some (Inr (bh i))"
    and bv: "\<And>j. j < self_m M \<Longrightarrow>
          B j (self_order M) (self_th M)
            ((v + (self_grid_height M - self_image_height M) / 2) / (self_grid_height M - 1))
          = Some (Inr (bv j))"
  shows "sample M u v = Some (Inr
          (\<Sum>i \<in> {i. i < self_n M \<and> self_min_basis_value M \<le> bh i}.
           \<Sum>j \<in> {j. j < self_m M \<and> self_min_basis_value M \<le> bv j}.
             multiply (control_point M i j) (bh i * bv j)))"
proof -
  let ?Bh = "map bh [0..<self_n M]" and ?Bv = "map bv [0..<self_m M]"
  let ?c = "self_min_basis_value M"
  have Bh: "B_all [0..<self_n M] (self_order M) (self_tv M)
      ((u + (self_grid_width M - self_image_width M) / 2) / (self_grid_width M - 1))
      = Some (Inr ?Bh)"
    using bh by (rule B_all_range)
  have Bv: "B_all [0..<self_m M] (self_order M) (self_th M)
      ((v + (self_grid_height M - self_image_height M) / 2) / (self_grid_height M - 1))
      = Some (Inr ?Bv)"
    using bv by (rule B_all_range)
  have I: "{i. i < length ?Bh \<and> ?c \<le> ?Bh ! i} = {i. i < self_n M \<and> ?c \<le> bh i}"
    by auto
  have J: "{j. j < length ?Bv \<and> ?c \<le> ?Bv ! j} = {j. j < self_m M \<and> ?c \<le> bv j}"
    by auto
  have "sample M u v = Some (Inr
      (\<Sum>i \<in> {i. i < length ?Bh \<and> ?c \<le> ?Bh ! i}. \<Sum>j \<in> {j. j < length ?Bv \<and> ?c \<le> ?Bv ! j}.
         multiply (control_point M i j) (?Bh ! i * ?Bv ! j)))"
    using gw gh by (simp add: sample_def Let_def Bh Bv accumulate_sum del: map_map)
  also have "\<dots> = Some (Inr
      (\<Sum>i \<in> {i. i < self_n M \<and> ?c \<le> bh i}. \<Sum>j \<in> {j. j < self_m M \<and> ?c \<le> bv j}.
         multiply (control_point M i j) (bh i * bv j)))"
    unfolding I J
    by (intro arg_cong [where f = Some] arg_cong [where f = Inr] sum.cong refl) simp
  finally show ?thesis .
qed



section \<open>Properties of the specified generators and the example models\<close>

lemma length_open_uniform_spec:
  "0 \<le> order \<Longrightarrow> order < int count
     \<Longrightarrow> length (open_uniform_spec count order) = count + nat order + 2"
  by (simp add: open_uniform_spec_def)

lemma sorted_map_upt:
  fixes f :: "nat \<Rightarrow> real"
  assumes "\<And>i j. i \<le> j \<Longrightarrow> f i \<le> f j"
  shows "sorted (map f [a..<b])"
  unfolding sorted_iff_nth_mono using assms by simp

lemma sorted_clamped:
  fixes lo hi :: real
  assumes "sorted xs" and "\<And>y. y \<in> set xs \<Longrightarrow> lo \<le> y \<and> y \<le> hi" and "lo \<le> hi"
  shows "sorted (replicate a lo @ xs @ replicate b hi)"
  using assms by (auto simp: sorted_append sorted_replicate)

lemma sorted_open_uniform_spec: "sorted (open_uniform_spec count order)"
proof -
  define q where "q = count - nat order + 1"
  have mid: "sorted (map (\<lambda>j. real j / real q) [1..<q])"
    by (rule sorted_map_upt) (simp add: divide_right_mono)
  have bounds: "0 \<le> y \<and> y \<le> 1" if "y \<in> set (map (\<lambda>j. real j / real q) [1..<q])" for y
  proof -
    from that have "y \<in> (\<lambda>j. real j / real q) ` set [1..<q]" by (simp only: set_map)
    then obtain j where "y = real j / real q" and "j \<in> set [1..<q]" by (rule imageE)
    then show ?thesis by simp
  qed
  have "sorted (replicate (nat order + 1) 0 @ map (\<lambda>j. real j / real q) [1..<q]
      @ replicate (nat order + 1) 1)"
    using mid bounds by (intro sorted_clamped) simp_all
  then show ?thesis
    unfolding open_uniform_spec_def q_def .
qed

lemma length_uniform_spec: "length (uniform_spec count order) = count + nat order + 2"
  by (simp add: uniform_spec_def)

lemma sorted_uniform_spec: "sorted (uniform_spec count order)"
  unfolding uniform_spec_def by (rule sorted_map_upt) (simp add: divide_right_mono)

lemma knot_contract_spec: "knot_contract kg_spec"
  by (simp add: knot_contract_def kg_spec_def length_open_uniform_spec length_uniform_spec
      sorted_open_uniform_spec sorted_uniform_spec)

lemma open_uniform_spec_2: "open_uniform_spec 2 1 = [0, 0, 1 / 2, 1, 1]"
  by (simp add: open_uniform_spec_def eval_nat_numeral upt_rec)

lemma open_uniform_spec_4: "open_uniform_spec 4 1 = [0, 0, 1 / 4, 1 / 2, 3 / 4, 1, 1]"
  by (simp add: open_uniform_spec_def eval_nat_numeral upt_rec)

lemma init_example:
  "n \<in> {2, 4} \<Longrightarrow> m \<in> {2, 4} \<Longrightarrow>
   init kg_spec (Tuple [3, 3]) (Tuple [3, 3]) (example_points n m) 1 ''open_uniform'' c d
     = Inr (example_model n m c)"
  by (auto simp: init_def example_points_def example_model_def kg_spec_def)


lemma B_order_1:
  "i + 2 < length t \<Longrightarrow> B i 1 t x = Some (Inr (basis_value t i (Suc 0) x))"
  using B_in_range [of i 1 t x] by simp

lemma example_basis_values:
  "B 0 1 [0, 0, 1 / 2, 1, 1] 0 = Some (Inr 1)"
  "B (Suc 0) 1 [0, 0, 1 / 2, 1, 1] 0 = Some (Inr 0)"
  "B 0 1 [0, 0, 1 / 2, 1, 1] (1 / 4) = Some (Inr (1 / 2))"
  "B (Suc 0) 1 [0, 0, 1 / 2, 1, 1] (1 / 4) = Some (Inr (1 / 2))"
  by (simp_all add: B_order_1)

lemma init_fields:
  assumes "init kg image_dimensions grid_dimensions control_points order knot_method c d = Inr M"
  shows "self_n M = shape control_points ! 0" and "self_m M = shape control_points ! 1"
    and "self_order M = order" and "order < int (self_n M)" and "order < int (self_m M)"
    and "self_th M = (if knot_method = ''open_uniform'' then open_uniform kg (self_n M) order
                      else uniform kg (self_n M) order)"
    and "self_tv M = (if knot_method = ''open_uniform'' then open_uniform kg (self_m M) order
                      else uniform kg (self_m M) order)"
  using assms by (auto simp: init_def Let_def split: if_splits)

lemma init_knot_lengths:
  assumes "knot_contract kg" and "0 \<le> order"
    and "init kg image_dimensions grid_dimensions control_points order knot_method c d = Inr M"
  shows "length (self_th M) = self_n M + nat order + 2"
    and "length (self_tv M) = self_m M + nat order + 2"
proof -
  note f = init_fields [OF assms(3)]
  have n: "0 \<le> order \<and> order < int (self_n M)" and m: "0 \<le> order \<and> order < int (self_m M)"
    using assms(2) f(4,5) by simp_all
  show "length (self_th M) = self_n M + nat order + 2"
    using assms(1) n unfolding knot_contract_def f(6) by (cases "knot_method = ''open_uniform''") simp_all
  show "length (self_tv M) = self_m M + nat order + 2"
    using assms(1) m unfolding knot_contract_def f(7) by (cases "knot_method = ''open_uniform''") simp_all
qed

lemma sample_in_range:
  assumes "0 \<le> self_order M"
    and "self_n M + nat (self_order M) < length (self_tv M)"
    and "self_m M + nat (self_order M) < length (self_th M)"
  shows "\<exists>r. sample M u v = Some r \<and> r \<noteq> Inl IndexError"
proof -
  obtain k where k: "self_order M = int k" using assms(1) nonneg_int_cases by blast
  consider "self_grid_width M = 1" | "self_grid_width M \<noteq> 1" "self_grid_height M = 1"
    | "self_grid_width M \<noteq> 1" "self_grid_height M \<noteq> 1" by blast
  then show ?thesis
  proof cases
    case 1
    then show ?thesis by (simp add: sample_def)
  next
    case 2
    then show ?thesis by (simp add: sample_def Let_def)
  next
    case 3
    have "sample M u v = Some (Inr
          (\<Sum>i \<in> {i. i < self_n M \<and> self_min_basis_value M \<le> basis_value (self_tv M) i k
              ((u + (self_grid_width M - self_image_width M) / 2) / (self_grid_width M - 1))}.
           \<Sum>j \<in> {j. j < self_m M \<and> self_min_basis_value M \<le> basis_value (self_th M) j k
              ((v + (self_grid_height M - self_image_height M) / 2) / (self_grid_height M - 1))}.
             multiply (control_point M i j)
               (basis_value (self_tv M) i k
                  ((u + (self_grid_width M - self_image_width M) / 2) / (self_grid_width M - 1))
                * basis_value (self_th M) j k
                  ((v + (self_grid_height M - self_image_height M) / 2) / (self_grid_height M - 1)))))"
      using 3 assms(2,3) by (intro sample_sum) (simp_all add: k B_in_range)
    then show ?thesis by simp
  qed
qed

lemma linalg_norm_eq_0: "linalg_norm (s0, s1, s2) = 0 \<longleftrightarrow> s0 = 0 \<and> s1 = 0 \<and> s2 = 0"
proof -
  have "s0 * s0 + s1 * s1 + s2 * s2 = 0 \<longleftrightarrow> s0 = 0 \<and> s1 = 0 \<and> s2 = 0"
  proof
    assume z: "s0 * s0 + s1 * s1 + s2 * s2 = 0"
    have "0 \<le> s0 * s0" "0 \<le> s1 * s1" "0 \<le> s2 * s2" by simp_all
    with z have "s0 * s0 = 0" "s1 * s1 = 0" "s2 * s2 = 0" by linarith+
    then show "s0 = 0 \<and> s1 = 0 \<and> s2 = 0" by simp
  qed simp
  then show ?thesis by (simp add: linalg_norm_def)
qed

lemma example_basis_values_outside:
  "B 0 1 [0, 0, 1 / 2, 1, 1] (5 / 2) = Some (Inr 0)"
  "B (Suc 0) 1 [0, 0, 1 / 2, 1, 1] (5 / 2) = Some (Inr 0)"
  "B (Suc (Suc 0)) 1 [0, 0, 1 / 2, 1, 1] (5 / 2) = Some (Inr 0)"
  "B (Suc (Suc (Suc 0))) 1 [0, 0, 1 / 2, 1, 1] (5 / 2) = Some (Inl IndexError)"
  "B 0 1 [0, 0, 1 / 4, 1 / 2, 3 / 4, 1, 1] (5 / 2) = Some (Inr 0)"
  "B (Suc 0) 1 [0, 0, 1 / 4, 1 / 2, 3 / 4, 1, 1] (5 / 2) = Some (Inr 0)"
  by (simp_all add: B.simps getitem_def)

lemma sample_example_values:
  "sample (example_model 2 2 (1 / 1000)) 0 (1 / 2) = Some (Inr (0, 2, 0))"
  "sample (example_model 2 2 (1 / 1000)) 5 (1 / 2) = Some (Inr (0, 0, 0))"
  "sample (example_model 2 4 (1 / 1000)) 5 5 = Some (Inl IndexError)"
  by (simp_all add: sample_def Let_def example_model_def open_uniform_spec_2 open_uniform_spec_4
      upt_rec example_basis_values example_basis_values_outside where_ge_def multiply_def
      control_point_def example_points_def)

lemma multiply_zero: "multiply p 0 = 0"
  by (cases p) (simp add: multiply_def zero_prod_def)

lemma sample_outside_support:
  assumes "0 \<le> self_order M" and "sorted (self_tv M)"
    and "self_n M + nat (self_order M) < length (self_tv M)"
    and "self_m M + nat (self_order M) < length (self_th M)"
    and "self_grid_width M \<noteq> 1" and "self_grid_height M \<noteq> 1"
    and "(u + (self_grid_width M - self_image_width M) / 2) / (self_grid_width M - 1) < self_tv M ! 0
         \<or> last (self_tv M)
             \<le> (u + (self_grid_width M - self_image_width M) / 2) / (self_grid_width M - 1)"
  shows "sample M u v = Some (Inr (0, 0, 0))"
proof -
  obtain k where k: "self_order M = int k" using assms(1) nonneg_int_cases by blast
  define x where "x = (u + (self_grid_width M - self_image_width M) / 2) / (self_grid_width M - 1)"
  define y where "y = (v + (self_grid_height M - self_image_height M) / 2) / (self_grid_height M - 1)"
  have zero: "basis_value (self_tv M) i k x = 0" if "i < self_n M" for i
  proof -
    have r: "i + k + 1 < length (self_tv M)" using that assms(3) k by simp
    have "self_tv M ! 0 \<le> self_tv M ! i"
      using r assms(2) by (intro sorted_nth_mono) simp_all
    moreover have "self_tv M ! (i + k + 1) \<le> last (self_tv M)"
    proof -
      have ne: "self_tv M \<noteq> []" using r by auto
      have "self_tv M ! (i + k + 1) \<le> self_tv M ! (length (self_tv M) - 1)"
        using r assms(2) by (intro sorted_nth_mono) simp_all
      then show ?thesis by (simp add: last_conv_nth [OF ne])
    qed
    ultimately have "x < self_tv M ! i \<or> self_tv M ! (i + k + 1) \<le> x"
      using assms(7) unfolding x_def by linarith
    then show ?thesis by (rule basis_value_support [OF assms(2) r])
  qed
  have "sample M u v = Some (Inr
          (\<Sum>i \<in> {i. i < self_n M \<and> self_min_basis_value M \<le> basis_value (self_tv M) i k x}.
           \<Sum>j \<in> {j. j < self_m M \<and> self_min_basis_value M \<le> basis_value (self_th M) j k y}.
             multiply (control_point M i j)
               (basis_value (self_tv M) i k x * basis_value (self_th M) j k y)))"
    unfolding x_def y_def using assms(3,4,5,6)
    by (intro sample_sum) (simp_all add: k B_in_range)
  also have "\<dots> = Some (Inr 0)"
    by (intro arg_cong [where f = Some] arg_cong [where f = Inr] sum.neutral ballI)
      (simp add: zero multiply_zero)
  finally show ?thesis by (simp add: zero_prod_def)
qed





section \<open>Claims about the basis function\<close>

text \<open>
  C3. At order 0 the basis function is the indicator of the right-open interval from
  \<open>t[i]\<close> to \<open>t[i + 1]\<close>: it is 1 when \<open>t[i] \<le> x < t[i + 1]\<close> and 0 otherwise, also
  when \<open>x\<close> is a knot.
\<close>

theorem B_base_case:
  "i + 1 < length t
     \<Longrightarrow> B i 0 t x = Some (Inr (if t ! i \<le> x \<and> x < t ! (i + 1) then 1 else 0))"
  by (simp add: B_zero getitem_in_range del: of_nat_add of_nat_Suc)

theorem B_base_case_witness:
  "(1::nat) + 1 < length [0, 1 / 2, 1 :: real]
     \<and> B 1 0 [0, 1 / 2, 1] (1 / 2) = Some (Inr 1)
     \<and> B 0 0 [0, 1 / 2, 1] (1 / 2) = Some (Inr 0)"
  using B_base_case [of 1 "[0, 1 / 2, 1]" "1 / 2"] B_base_case [of 0 "[0, 1 / 2, 1]" "1 / 2"]
  by simp

text \<open>
  C1. For \<open>k > 0\<close> and knots in range, the basis function is the sum of the two
  recursive values, each multiplied by its fraction; a fraction whose denominator is
  zero is replaced by 1, so that its term is the recursive value itself.
\<close>

theorem B_recursive_case:
  assumes "0 < k" and "i + k + 1 < length t"
    and "B i (int k - 1) t x = Some (Inr c1)"
    and "B (i + 1) (int k - 1) t x = Some (Inr c2)"
  shows "B i (int k) t x = Some (Inr
      ((if t ! (i + k) - t ! i = 0 then 1 else (x - t ! i) / (t ! (i + k) - t ! i)) * c1
       + (if t ! (i + k + 1) - t ! (i + 1) = 0 then 1
          else (t ! (i + k + 1) - x) / (t ! (i + k + 1) - t ! (i + 1))) * c2))"
proof -
  obtain k' where k: "k = Suc k'" using assms(1) by (cases k) auto
  have r1: "B i (int k') t x = Some (Inr c1)" and r2: "B (i + 1) (int k') t x = Some (Inr c2)"
    using assms(3,4) by (simp_all add: k)
  show ?thesis
    unfolding k B_Suc r1 r2 using assms(2)
    by (simp add: k getitem_in_range del: of_nat_add of_nat_Suc)
qed

theorem B_recursive_case_witness:
  "(0::nat) < 1 \<and> (0::nat) + 1 + 1 < length [0, 0, 1 / 2, 1, 1 :: real]
     \<and> B 0 (int 1 - 1) [0, 0, 1 / 2, 1, 1] (1 / 4) = Some (Inr 0)
     \<and> B (0 + 1) (int 1 - 1) [0, 0, 1 / 2, 1, 1] (1 / 4) = Some (Inr 1)
     \<and> B 0 (int 1) [0, 0, 1 / 2, 1, 1] (1 / 4) = Some (Inr (1 / 2))"
proof -
  have c1: "B 0 (int 1 - 1) [0, 0, 1 / 2, 1, 1] (1 / 4) = Some (Inr 0)"
    by (simp add: B_zero getitem_def)
  have c2: "B (0 + 1) (int 1 - 1) [0, 0, 1 / 2, 1, 1] (1 / 4) = Some (Inr 1)"
    by (simp add: B_zero getitem_def)
  show ?thesis
    using B_recursive_case [of 1 0 "[0, 0, 1 / 2, 1, 1]" "1 / 4" 0 1, OF _ _ c1 c2] c1 c2
    by simp
qed

text \<open>
  C9. For every order \<open>k \<ge> 0\<close> the evaluation of the basis function returns: with a
  result or an error in general, and with a value when the knots up to \<open>i + k + 1\<close>
  are in range.
\<close>

theorem B_terminates:
  "0 \<le> k \<Longrightarrow>
     (\<exists>r. B i k t x = Some r)
     \<and> (int i + k + 1 < int (length t) \<longrightarrow> (\<exists>y. B i k t x = Some (Inr y)))"
proof -
  assume "0 \<le> k"
  then obtain k' where k: "k = int k'" using nonneg_int_cases by blast
  have "\<exists>r. B i (int k') t x = Some r" by (rule B_nat_returns)
  moreover have "\<exists>y. B i (int k') t x = Some (Inr y)" if "i + k' + 1 < length t"
    using B_in_range [OF that] by blast
  ultimately show ?thesis unfolding k by auto
qed

theorem B_terminates_witness:
  "(0::int) \<le> 2 \<and> (\<exists>r. B 0 2 [0, 0, 0, 1, 1, 1] (1 / 2) = Some r)
     \<and> int 0 + 2 + 1 < int (length [0, 0, 0, 1, 1, 1 :: real])
     \<and> (\<exists>y. B 0 2 [0, 0, 0, 1, 1, 1] (1 / 2) = Some (Inr y))"
  using B_terminates [of 2 0 "[0, 0, 0, 1, 1, 1]" "1 / 2"] by simp


section \<open>Claims about sampling\<close>







text \<open>
  C10 (the knot vectors' length \<open>count + order + 2\<close> is the generators' contract in
  the specification). A model built with such generators on a square control grid, with
  an order \<open>k \<ge> 0\<close>, has knot vectors of length \<open>n + k + 2\<close>; every index up to
  \<open>i + k + 1\<close> for \<open>i < n\<close> is within them, and \<open>sample\<close> returns without an
  \<open>IndexError\<close>.
\<close>

theorem sample_square_no_IndexError:
  assumes "knot_contract kg" and "0 \<le> order"
    and "init kg image_dimensions grid_dimensions control_points order knot_method c d = Inr M"
    and "self_n M = self_m M"
  shows "length (self_tv M) = self_m M + nat order + 2
         \<and> length (self_th M) = self_n M + nat order + 2
         \<and> (\<forall>i<self_n M. i + nat order + 1 < length (self_tv M))
         \<and> (\<forall>j<self_m M. j + nat order + 1 < length (self_th M))
         \<and> (\<exists>r. sample M u v = Some r \<and> r \<noteq> Inl IndexError)"
proof -
  note len = init_knot_lengths [OF assms(1,2,3)]
  have k: "self_order M = order" by (rule init_fields(3) [OF assms(3)])
  have "\<exists>r. sample M u v = Some r \<and> r \<noteq> Inl IndexError"
    using assms(2,4) len by (intro sample_in_range) (simp_all add: k)
  then show ?thesis using len assms(4) by simp
qed

theorem sample_square_no_IndexError_witness:
  "knot_contract kg_spec \<and> (0::int) \<le> 1
   \<and> init kg_spec (Tuple [3, 3]) (Tuple [3, 3]) (example_points 2 2) 1 ''open_uniform''
        (1 / 1000) (1 / 10) = Inr (example_model 2 2 (1 / 1000))
   \<and> self_n (example_model 2 2 (1 / 1000)) = self_m (example_model 2 2 (1 / 1000))
   \<and> length (self_tv (example_model 2 2 (1 / 1000))) = 5
   \<and> length (self_th (example_model 2 2 (1 / 1000))) = 5
   \<and> (\<exists>r. sample (example_model 2 2 (1 / 1000)) 0 (1 / 2) = Some r \<and> r \<noteq> Inl IndexError)"
proof -
  have i: "init kg_spec (Tuple [3, 3]) (Tuple [3, 3]) (example_points 2 2) 1 ''open_uniform''
        (1 / 1000) (1 / 10) = Inr (example_model 2 2 (1 / 1000))"
    by (rule init_example) simp_all
  have s: "self_n (example_model 2 2 (1 / 1000)) = self_m (example_model 2 2 (1 / 1000))"
    by (simp add: example_model_def)
  show ?thesis
    using sample_square_no_IndexError [OF knot_contract_spec _ i s, of 0 "1 / 2"]
      knot_contract_spec i s
    by (simp add: example_model_def)
qed

text \<open>
  C7. Construction raises the assertion error exactly when the knot method is not one of
  the two names, or a dimension argument is not a tuple of two entries, or the control
  points are not an array of rank 3 with last dimension 3, or the order is at least the
  smaller of \<open>n\<close> and \<open>m\<close>; otherwise it returns a model.
\<close>

theorem init_fails_exactly_when:
  "(if knot_method \<notin> {''open_uniform'', ''uniform''}
       \<or> \<not> is_2tuple image_dimensions \<or> \<not> is_2tuple grid_dimensions
       \<or> \<not> is_grid control_points
       \<or> int (min (shape control_points ! 0) (shape control_points ! 1)) \<le> order
    then init kg image_dimensions grid_dimensions control_points order knot_method c d
           = Inl AssertionError
    else (\<exists>M. init kg image_dimensions grid_dimensions control_points order knot_method c d
           = Inr M))"
  by (auto simp: init_def Let_def)

theorem init_fails_exactly_when_witness:
  "init kg_spec (Tuple [3, 3]) (Tuple [3, 3]) (example_points 2 2) 1 ''open_uniform''
        (1 / 1000) (1 / 10) = Inr (example_model 2 2 (1 / 1000))
   \<and> init kg_spec (Tuple [3, 3]) (Tuple [3, 3]) (example_points 2 2) 2 ''open_uniform''
        (1 / 1000) (1 / 10) = Inl AssertionError
   \<and> init kg_spec (Tuple [3, 3]) (Tuple [3, 3, 3]) (example_points 2 2) 1 ''open_uniform''
        (1 / 1000) (1 / 10) = Inl AssertionError
   \<and> init kg_spec (Tuple [3, 3]) (Tuple [3, 3]) NotNdarray 1 ''open_uniform''
        (1 / 1000) (1 / 10) = Inl AssertionError
   \<and> init kg_spec (Tuple [3, 3]) (Tuple [3, 3]) (example_points 2 2) 1 ''clamped''
        (1 / 1000) (1 / 10) = Inl AssertionError"
proof -
  have ok: "init kg_spec (Tuple [3, 3]) (Tuple [3, 3]) (example_points 2 2) 1 ''open_uniform''
        (1 / 1000) (1 / 10) = Inr (example_model 2 2 (1 / 1000))"
    by (rule init_example) simp_all
  show ?thesis
    using ok
      init_fails_exactly_when [of "''open_uniform''" "Tuple [3, 3]" "Tuple [3, 3]"
        "example_points 2 2" 2 kg_spec "1 / 1000" "1 / 10"]
      init_fails_exactly_when [of "''open_uniform''" "Tuple [3, 3]" "Tuple [3, 3, 3]"
        "example_points 2 2" 1 kg_spec "1 / 1000" "1 / 10"]
      init_fails_exactly_when [of "''open_uniform''" "Tuple [3, 3]" "Tuple [3, 3]"
        NotNdarray 1 kg_spec "1 / 1000" "1 / 10"]
      init_fails_exactly_when [of "''clamped''" "Tuple [3, 3]" "Tuple [3, 3]"
        "example_points 2 2" 1 kg_spec "1 / 1000" "1 / 10"]
    by (simp add: example_points_def)
qed

text \<open>
  C5, as the code has it. When \<open>sample\<close> returns a vector, \<open>sample_normalized\<close> raises
  nothing: for the zero vector it returns three not-a-numbers, and for any other vector
  it returns the vector divided by its Euclidean norm.
\<close>

theorem sample_normalized_result:
  assumes "sample M u v = Some (Inr (s0, s1, s2))"
  shows "sample_normalized M u v = Some (Inr
          (if (s0, s1, s2) = (0, 0, 0) then (NaN, NaN, NaN)
           else (Finite (s0 / linalg_norm (s0, s1, s2)), Finite (s1 / linalg_norm (s0, s1, s2)),
                 Finite (s2 / linalg_norm (s0, s1, s2)))))"
  using assms linalg_norm_eq_0 [of s0 s1 s2]
  by (auto simp: sample_normalized_def np_divide_def)

theorem sample_normalized_result_witness:
  "sample (example_model 2 2 (1 / 1000)) 0 (1 / 2) = Some (Inr (0, 2, 0))
   \<and> sample_normalized (example_model 2 2 (1 / 1000)) 0 (1 / 2)
       = Some (Inr (Finite 0, Finite 1, Finite 0))
   \<and> sample (example_model 2 2 (1 / 1000)) 5 (1 / 2) = Some (Inr (0, 0, 0))
   \<and> sample_normalized (example_model 2 2 (1 / 1000)) 5 (1 / 2) = Some (Inr (NaN, NaN, NaN))"
  using sample_normalized_result [OF sample_example_values(1)]
    sample_normalized_result [OF sample_example_values(2)]
    sample_example_values(1,2)
  by (simp add: linalg_norm_def)

text \<open>
  C5, as the claim states it, fails: in the example model the pixel \<open>(5, 1/2)\<close> lies
  beyond the last knot, \<open>sample\<close> returns the zero vector there, and
  \<open>sample_normalized\<close> returns three not-a-numbers instead of raising.
\<close>

theorem sample_normalized_zero_counterexample:
  "sample (example_model 2 2 (1 / 1000)) 5 (1 / 2) = Some (Inr (0, 0, 0))
   \<and> sample_normalized (example_model 2 2 (1 / 1000)) 5 (1 / 2) = Some (Inr (NaN, NaN, NaN))
   \<and> sample_normalized (example_model 2 2 (1 / 1000)) 5 (1 / 2) \<noteq> Some (Inl ZeroDivisionError)"
  by (simp add: sample_normalized_def sample_example_values(2) np_divide_def linalg_norm_def)

text \<open>
  C6. On a control grid of 2 by 4 points with order 1 and open-uniform knots,
  construction succeeds; at the pixel \<open>(5, 5)\<close>, which maps beyond the last knot on both
  axes, the basis values over \<open>range(n)\<close> are all zero, and \<open>sample\<close> raises an
  \<open>IndexError\<close>: the basis function of index 3 reads entry 5 of \<open>th\<close>, which has 5
  entries.
\<close>

theorem sample_nonsquare_IndexError:
  "init kg_spec (Tuple [3, 3]) (Tuple [3, 3]) (example_points 2 4) 1 ''open_uniform''
        (1 / 1000) (1 / 10) = Inr (example_model 2 4 (1 / 1000))
   \<and> length (self_th (example_model 2 4 (1 / 1000))) = 5
   \<and> B_all [0..<2] 1 (self_tv (example_model 2 4 (1 / 1000))) (5 / 2) = Some (Inr [0, 0])
   \<and> B 3 1 (self_th (example_model 2 4 (1 / 1000))) (5 / 2) = Some (Inl IndexError)
   \<and> sample (example_model 2 4 (1 / 1000)) 5 5 = Some (Inl IndexError)"
proof -
  have i: "init kg_spec (Tuple [3, 3]) (Tuple [3, 3]) (example_points 2 4) 1 ''open_uniform''
        (1 / 1000) (1 / 10) = Inr (example_model 2 4 (1 / 1000))"
    by (rule init_example) simp_all
  have b: "B 3 1 [0, 0, 1 / 2, 1, 1] (5 / 2) = Some (Inl IndexError)"
    using example_basis_values_outside(4) by (simp add: eval_nat_numeral)
  show ?thesis
    using i b sample_example_values(3)
    by (simp add: example_model_def open_uniform_spec_2 open_uniform_spec_4 upt_rec
        example_basis_values_outside)
qed

section \<open>Claims about the partition of unity\<close>

text \<open>
  C8, as the code has it. For a non-decreasing knot vector with more than
  \<open>count + k\<close> entries and a parameter \<open>x\<close> with \<open>t[k] \<le> x < t[count]\<close>, the basis
  functions of order \<open>k\<close> and index below \<open>count\<close> all return, and their values sum
  to 1.
\<close>

theorem partition_of_unity:
  assumes "sorted t" and "count + k < length t" and "t ! k \<le> x" and "x < t ! count"
  shows "\<exists>bs. B_all [0..<count] (int k) t x = Some (Inr bs) \<and> sum_list bs = 1"
proof -
  have "B_all [0..<count] (int k) t x = Some (Inr (map (\<lambda>i. basis_value t i k x) [0..<count]))"
    using assms(2) by (intro B_all_range B_in_range) simp
  moreover have "sum_list (map (\<lambda>i. basis_value t i k x) [0..<count]) = 1"
    using basis_value_partition [OF assms]
    by (simp add: interv_sum_list_conv_sum_set_nat atLeast0LessThan)
  ultimately show ?thesis by blast
qed

theorem partition_of_unity_witness:
  "sorted [0, 0, 1 / 2, 1, 1 :: real] \<and> (2::nat) + 1 < length [0, 0, 1 / 2, 1, 1 :: real]
   \<and> [0, 0, 1 / 2, 1, 1] ! 1 \<le> (1 / 4 :: real) \<and> (1 / 4 :: real) < [0, 0, 1 / 2, 1, 1] ! 2
   \<and> B_all [0..<2] (int 1) [0, 0, 1 / 2, 1, 1] (1 / 4) = Some (Inr [1 / 2, 1 / 2])
   \<and> (\<exists>bs. B_all [0..<2] (int 1) [0, 0, 1 / 2, 1, 1] (1 / 4) = Some (Inr bs) \<and> sum_list bs = 1)"
proof -
  have v: "B_all [0..<2] (int 1) [0, 0, 1 / 2, 1, 1] (1 / 4) = Some (Inr [1 / 2, 1 / 2])"
    by (simp add: upt_rec example_basis_values)
  show ?thesis
    using partition_of_unity [of "[0, 0, 1 / 2, 1, 1]" 2 1 "1 / 4"] v by simp
qed

text \<open>
  C8, as the claim states it, fails: the knot vector \<open>[0, 0, 1/2, 1, 1]\<close> is
  non-decreasing, has \<open>count + order + 2\<close> entries for \<open>count = 2\<close> and \<open>order = 1\<close> with
  the first and last two clamped to 0 and 1, and \<open>x = 3/4\<close> lies strictly between its
  first and last knot; the two basis values there are 0 and 1/2.
\<close>

theorem partition_of_unity_counterexample:
  "sorted [0, 0, 1 / 2, 1, 1 :: real]
   \<and> length [0, 0, 1 / 2, 1, 1 :: real] = 2 + 1 + 2
   \<and> open_uniform_spec 2 1 = [0, 0, 1 / 2, 1, 1]
   \<and> hd [0, 0, 1 / 2, 1, 1] < (3 / 4 :: real) \<and> (3 / 4 :: real) < last [0, 0, 1 / 2, 1, 1]
   \<and> B_all [0..<2] 1 [0, 0, 1 / 2, 1, 1] (3 / 4) = Some (Inr [0, 1 / 2])
   \<and> sum_list [0, 1 / 2 :: real] \<noteq> 1"
  by (simp add: upt_rec B_order_1 open_uniform_spec_2)

end
